theory Spec2Isabelle
  imports Main "HOL-Library.Multiset"
begin

section \<open>Data model\<close>

text \<open>
  The corpus is the object that \<^verbatim>\<open>loadSurahData\<close> stores in \<^verbatim>\<open>surahData\<close>: a surah
  with its ayahs, each ayah with its words. An array held by an object is a reference, so
  the \<^verbatim>\<open>options\<close> of a word is the address of an array in the store (see the shuffler).
  The corpus is never assigned after the load; the operations take it as a parameter.
\<close>

type_synonym addr = nat

record word =
  w_arabic :: string
  w_transliteration :: string
  w_meaning :: string
  options :: addr

record ayah =
  number :: int
  arabic :: string
  transliteration :: string
  meaning :: string
  words :: "word list"

record surah =
  s_number :: int
  ayahs :: "ayah list"

text \<open>
  The three variables of \<^verbatim>\<open>app.js\<close> that hold the position and the mode. JavaScript
  numbers that only ever count up and down by one are integers, and may go below zero
  (\<^verbatim>\<open>words.length - 1\<close> of an ayah without words is \<open>-1\<close>), so they are \<open>int\<close>.
\<close>

record nav =
  currentAyahIndex :: int
  currentWordIndex :: int
  isMcqMode :: bool

text \<open>
  \<^verbatim>\<open>xs[i]\<close> in JavaScript: the element when \<open>i\<close> is an index of the array, and
  \<^verbatim>\<open>undefined\<close> (here \<open>None\<close>) otherwise. Reading a property of \<^verbatim>\<open>undefined\<close> throws
  a \<^verbatim>\<open>TypeError\<close>.
\<close>

definition nth_js :: "'a list \<Rightarrow> int \<Rightarrow> 'a option" where
  "nth_js xs i = (if 0 \<le> i \<and> i < int (length xs) then Some (xs ! nat i) else None)"

text \<open>
  How a function ends: it returns, or it throws. The program has no \<^verbatim>\<open>try\<close>, so an
  exception ends the handler that is running. \<open>DOMException\<close> is what a browser
  interface throws when it refuses a request.
\<close>

datatype outcome = Done | TypeError | DOMException

text \<open>Statements in sequence: the first one that throws ends the handler.\<close>

definition and_then :: "outcome \<Rightarrow> outcome \<Rightarrow> outcome" where
  "and_then a b =
     (case a of Done \<Rightarrow> b | TypeError \<Rightarrow> TypeError | DOMException \<Rightarrow> DOMException)"

section \<open>Rendering\<close>

text \<open>
  The display functions write to DOM nodes and to the audio player and assign none of the
  three navigation variables. What navigation can observe of them is whether they return
  or throw, which depends on the reads of the corpus they make; these reads are kept, the
  writes to the page are outside the model.
\<close>

definition displayFlashcard :: "surah \<Rightarrow> nav \<Rightarrow> outcome" where
  "displayFlashcard d s =
     (case nth_js (ayahs d) (currentAyahIndex s) of
        None \<Rightarrow> TypeError
      | Some ayah \<Rightarrow> Done)"

definition displayMcqWord :: "surah \<Rightarrow> nav \<Rightarrow> outcome" where
  "displayMcqWord d s =
     (case nth_js (ayahs d) (currentAyahIndex s) of
        None \<Rightarrow> TypeError
      | Some ayah \<Rightarrow>
          (case nth_js (words ayah) (currentWordIndex s) of
             None \<Rightarrow> TypeError
           | Some word \<Rightarrow> Done))"

definition updateProgress :: "surah \<Rightarrow> nav \<Rightarrow> outcome" where
  "updateProgress d s =
     (if isMcqMode s then
        (case nth_js (ayahs d) (currentAyahIndex s) of
           None \<Rightarrow> TypeError
         | Some ayah \<Rightarrow> Done)
      else Done)"

definition updateButtons :: "surah \<Rightarrow> nav \<Rightarrow> outcome" where
  "updateButtons d s =
     (if isMcqMode s then
        (case nth_js (ayahs d) (currentAyahIndex s) of
           None \<Rightarrow> TypeError
         | Some ayah \<Rightarrow> Done)
      else Done)"

definition playRecitation :: "surah \<Rightarrow> nav \<Rightarrow> outcome" where
  "playRecitation d s =
     (case nth_js (ayahs d) (currentAyahIndex s) of
        None \<Rightarrow> TypeError
      | Some ayah \<Rightarrow> Done)"

definition displayCurrentContent :: "surah \<Rightarrow> nav \<Rightarrow> bool \<Rightarrow> outcome" where
  "displayCurrentContent d s autoplay =
     and_then
       (if isMcqMode s then displayMcqWord d s
        else and_then (displayFlashcard d s)
               (if autoplay then playRecitation d s else Done))
       (and_then (updateProgress d s) (updateButtons d s))"

section \<open>Navigation\<close>

text \<open>
  Each handler returns the variables as it leaves them, together with how it ended. An
  exception thrown after an assignment leaves the assignment in place.
\<close>

definition goNext :: "surah \<Rightarrow> nav \<Rightarrow> nav \<times> outcome" where
  "goNext d s =
     (if isMcqMode s then
        (case nth_js (ayahs d) (currentAyahIndex s) of
           None \<Rightarrow> (s, TypeError)
         | Some ayah \<Rightarrow>
             (let totalWords = int (length (words ayah)) in
              if currentWordIndex s < totalWords - 1 then
                (let s' = s\<lparr>currentWordIndex := currentWordIndex s + 1\<rparr>
                 in (s', displayCurrentContent d s' True))
              else if currentAyahIndex s < int (length (ayahs d)) - 1 then
                (let s' = s\<lparr>currentAyahIndex := currentAyahIndex s + 1,
                            currentWordIndex := 0\<rparr>
                 in (s', displayCurrentContent d s' True))
              else (s, Done)))
      else
        (let s' = (if currentAyahIndex s < int (length (ayahs d)) - 1
                   then s\<lparr>currentAyahIndex := currentAyahIndex s + 1\<rparr>
                   else s\<lparr>currentAyahIndex := 0\<rparr>)
         in (s', displayCurrentContent d s' True)))"

definition goPrev :: "surah \<Rightarrow> nav \<Rightarrow> nav \<times> outcome" where
  "goPrev d s =
     (if isMcqMode s then
        (if currentWordIndex s > 0 then
           (let s' = s\<lparr>currentWordIndex := currentWordIndex s - 1\<rparr>
            in (s', displayCurrentContent d s' True))
         else if currentAyahIndex s > 0 then
           (let s1 = s\<lparr>currentAyahIndex := currentAyahIndex s - 1\<rparr> in
            case nth_js (ayahs d) (currentAyahIndex s1) of
              None \<Rightarrow> (s1, TypeError)
            | Some ayah \<Rightarrow>
                (let s' = s1\<lparr>currentWordIndex := int (length (words ayah)) - 1\<rparr>
                 in (s', displayCurrentContent d s' True)))
         else (s, Done))
      else
        (if currentAyahIndex s > 0 then
           (let s' = s\<lparr>currentAyahIndex := currentAyahIndex s - 1\<rparr>
            in (s', displayCurrentContent d s' True))
         else (s, Done)))"

definition switchMode :: "bool \<Rightarrow> surah \<Rightarrow> nav \<Rightarrow> nav \<times> outcome" where
  "switchMode newIsMcq d s =
     (let s1 = s\<lparr>isMcqMode := newIsMcq\<rparr>;
          s' = (if isMcqMode s1 then s1\<lparr>currentWordIndex := 0\<rparr> else s1)
      in (s', displayCurrentContent d s' False))"

text \<open>
  The position is that of the data model: an index of an ayah of the corpus, and an index
  of a word of that ayah.
\<close>

definition valid_verse :: "surah \<Rightarrow> nav \<Rightarrow> bool" where
  "valid_verse d s \<longleftrightarrow>
     0 \<le> currentAyahIndex s \<and> currentAyahIndex s < int (length (ayahs d))"

definition totalWords :: "surah \<Rightarrow> int \<Rightarrow> int" where
  "totalWords d i = int (length (words (ayahs d ! nat i)))"

definition valid_state :: "surah \<Rightarrow> nav \<Rightarrow> bool" where
  "valid_state d s \<longleftrightarrow>
     valid_verse d s \<and> 0 \<le> currentWordIndex s \<and>
     currentWordIndex s < totalWords d (currentAyahIndex s)"

text \<open>
  The events that reach the navigation handlers (button clicks, arrow keys, mode tabs and
  the timer of \<^verbatim>\<open>checkAnswer\<close>), and a session as the list of its events, run from the
  values the three variables are declared with. An exception ends the handler it is thrown
  in, not the session: the next event finds the variables as that handler left them.
\<close>

datatype action = Next | Previous | SwitchMode bool

definition step :: "surah \<Rightarrow> nav \<Rightarrow> action \<Rightarrow> nav" where
  "step d s a =
     (case a of
        Next \<Rightarrow> fst (goNext d s)
      | Previous \<Rightarrow> fst (goPrev d s)
      | SwitchMode m \<Rightarrow> fst (switchMode m d s))"

definition run :: "surah \<Rightarrow> nav \<Rightarrow> action list \<Rightarrow> nav" where
  "run d s acts = foldl (step d) s acts"

definition initial :: nav where
  "initial = \<lparr>currentAyahIndex = 0, currentWordIndex = 0, isMcqMode = False\<rparr>"

text \<open>A corpus is well formed when every ayah has at least one word.\<close>

definition well_formed :: "surah \<Rightarrow> bool" where
  "well_formed d \<longleftrightarrow> list_all (\<lambda>a. words a \<noteq> []) (ayahs d)"

text \<open>
  What the invariant of the data model asks of the word index: it is an index of a word
  of the ayah the ayah index points at.
\<close>

definition word_index_valid :: "surah \<Rightarrow> nav \<Rightarrow> bool" where
  "word_index_valid d s \<longleftrightarrow>
     (case nth_js (ayahs d) (currentAyahIndex s) of
        None \<Rightarrow> False
      | Some ayah \<Rightarrow>
          0 \<le> currentWordIndex s \<and> currentWordIndex s < int (length (words ayah)))"

text \<open>
  The invariant the handlers keep: the ayah index stays inside the corpus (at 0 when the
  corpus is empty), and in quiz mode the word index is one of the current ayah.
\<close>

definition nav_inv :: "surah \<Rightarrow> nav \<Rightarrow> bool" where
  "nav_inv d s \<longleftrightarrow>
     0 \<le> currentAyahIndex s \<and>
     (currentAyahIndex s < int (length (ayahs d)) \<or> currentAyahIndex s = 0) \<and>
     (isMcqMode s \<and> ayahs d \<noteq> [] \<longrightarrow> word_index_valid d s)"

text \<open>
  The corpus of the scenario of the specification: two ayahs, the first of two words,
  the second of one.
\<close>

definition example_word :: "string \<Rightarrow> addr \<Rightarrow> word" where
  "example_word m p =
     \<lparr>w_arabic = ''w'', w_transliteration = ''t'', w_meaning = m, options = p\<rparr>"

definition example_surah :: surah where
  "example_surah =
     \<lparr>s_number = 1,
      ayahs =
        [\<lparr>number = 1, arabic = ''a1'', transliteration = ''t1'', meaning = ''m1'',
          words = [example_word ''In the name'' 0, example_word ''of Allah'' 1]\<rparr>,
         \<lparr>number = 2, arabic = ''a2'', transliteration = ''t2'', meaning = ''m2'',
          words = [example_word ''All praise'' 2]\<rparr>]\<rparr>"

definition quiz_at :: "int \<Rightarrow> int \<Rightarrow> nav" where
  "quiz_at i w = \<lparr>currentAyahIndex = i, currentWordIndex = w, isMcqMode = True\<rparr>"

definition review_at :: "int \<Rightarrow> int \<Rightarrow> nav" where
  "review_at i w = \<lparr>currentAyahIndex = i, currentWordIndex = w, isMcqMode = False\<rparr>"

section \<open>The option shuffler\<close>

text \<open>
  Arrays are objects: a variable holds a reference, and a function that assigns to
  \<^verbatim>\<open>array[i]\<close> changes the array of its caller. The store lists the arrays that exist,
  an address being a position in the list, so that a new array is one more entry at the end.
\<close>

type_synonym 'a store = "'a list list"

text \<open>
  \<^verbatim>\<open>[array[i], array[j]] = [array[j], array[i]]\<close>: both elements are read first, then
  \<^verbatim>\<open>array[i]\<close> and \<^verbatim>\<open>array[j]\<close> are assigned in this order.
\<close>

definition swap :: "nat \<Rightarrow> nat \<Rightarrow> 'a list \<Rightarrow> 'a list" where
  "swap i j array = array[i := array ! j, j := array ! i]"

text \<open>
  The loop \<^verbatim>\<open>for (let i = array.length - 1; i > 0; i--)\<close>, at loop index \<open>i\<close>. The
  floating-point expression \<^verbatim>\<open>Math.floor(Math.random() * (i + 1))\<close> is not computed
  here: \<open>rnd t\<close> stands for the index it yields the \<open>t\<close>-th time it is evaluated. As
  \<^verbatim>\<open>Math.random()\<close> lies in \<open>[0, 1)\<close>, that index lies in \<open>[0, i]\<close>, which \<open>draws_ok\<close>
  says of every iteration still to run. For an empty array \<^verbatim>\<open>array.length - 1\<close> is
  \<open>-1\<close> and the loop does not run, as it does not from the \<open>0\<close> of the natural numbers.
\<close>

fun shuffle_loop :: "(nat \<Rightarrow> nat) \<Rightarrow> nat \<Rightarrow> nat \<Rightarrow> 'a list \<Rightarrow> 'a list" where
  "shuffle_loop rnd t 0 array = array"
| "shuffle_loop rnd t (Suc k) array =
     shuffle_loop rnd (Suc t) k (swap (Suc k) (rnd t) array)"

fun draws_ok :: "(nat \<Rightarrow> nat) \<Rightarrow> nat \<Rightarrow> nat \<Rightarrow> bool" where
  "draws_ok rnd t 0 \<longleftrightarrow> True"
| "draws_ok rnd t (Suc k) \<longleftrightarrow> rnd t \<le> Suc k \<and> draws_ok rnd (Suc t) k"

text \<open>The elements of the array when \<^verbatim>\<open>shuffleArray\<close> returns.\<close>

definition shuffled :: "(nat \<Rightarrow> nat) \<Rightarrow> 'a list \<Rightarrow> 'a list" where
  "shuffled rnd array = shuffle_loop rnd 0 (length array - 1) array"

text \<open>
  \<^verbatim>\<open>shuffleArray\<close> works on the array it is given and returns that same reference.
  Nothing runs between its iterations, so the store is written once, with the final
  elements. A reference always points to an array, so the address is one of the store.
\<close>

definition shuffleArray :: "(nat \<Rightarrow> nat) \<Rightarrow> addr \<Rightarrow> 'a store \<Rightarrow> addr \<times> 'a store" where
  "shuffleArray rnd array h = (array, h[array := shuffled rnd (h ! array)])"

text \<open>\<^verbatim>\<open>[...xs]\<close>: a new array with the elements of \<open>xs\<close>.\<close>

definition spread :: "addr \<Rightarrow> 'a store \<Rightarrow> addr \<times> 'a store" where
  "spread xs h = (length h, h @ [h ! xs])"

text \<open>
  The shuffler as \<^verbatim>\<open>displayMcqWord\<close> uses it:
  \<^verbatim>\<open>const shuffledOptions = shuffleArray([...word.options])\<close>.
\<close>

definition shuffledOptions :: "(nat \<Rightarrow> nat) \<Rightarrow> word \<Rightarrow> string store \<Rightarrow> addr \<times> string store" where
  "shuffledOptions rnd word h =
     (case spread (options word) h of (copy, h1) \<Rightarrow> shuffleArray rnd copy h1)"

text \<open>
  A sequence of random choices for an array of \<open>n\<close> elements: the \<open>n - 1\<close> indices drawn,
  in the order of the iterations, each within its range.
\<close>

definition choices :: "nat \<Rightarrow> nat list \<Rightarrow> bool" where
  "choices n js \<longleftrightarrow> length js = n - 1 \<and> draws_ok (\<lambda>t. js ! t) 0 (n - 1)"

section \<open>Answer evaluation\<close>


















section \<open>Navigation: what the handlers do\<close>

lemma nth_js_valid:
  "0 \<le> i \<Longrightarrow> i < int (length xs) \<Longrightarrow> nth_js xs i = Some (xs ! nat i)"
  by (simp add: nth_js_def)

text \<open>
  C1. In quiz mode, from a position of the data model (\<open>valid_state\<close>), \<^verbatim>\<open>goNext\<close>
  leaves the variables as follows: when the word index is not the last of the current ayah,
  only the word index changes, by one; otherwise, when the ayah index is not the last,
  the ayah index goes up by one and the word index becomes 0; otherwise nothing changes.
\<close>

theorem goNext_quiz:
  assumes "valid_state d s" and "isMcqMode s"
  shows "fst (goNext d s) =
     (if currentWordIndex s \<noteq> totalWords d (currentAyahIndex s) - 1
      then s\<lparr>currentWordIndex := currentWordIndex s + 1\<rparr>
      else if currentAyahIndex s \<noteq> int (length (ayahs d)) - 1
      then s\<lparr>currentAyahIndex := currentAyahIndex s + 1, currentWordIndex := 0\<rparr>
      else s)"
  using assms
  by (auto simp: goNext_def valid_state_def valid_verse_def totalWords_def nth_js_valid Let_def)

theorem goNext_quiz_witness:
  "valid_state example_surah (quiz_at 0 1) \<and> isMcqMode (quiz_at 0 1) \<and>
   fst (goNext example_surah (quiz_at 0 0)) = quiz_at 0 1 \<and>
   fst (goNext example_surah (quiz_at 0 1)) = quiz_at 1 0 \<and>
   fst (goNext example_surah (quiz_at 1 0)) = quiz_at 1 0"
  using goNext_quiz [of example_surah "quiz_at 0 1"]
        goNext_quiz [of example_surah "quiz_at 0 0"]
        goNext_quiz [of example_surah "quiz_at 1 0"]
  by (simp add: valid_state_def valid_verse_def totalWords_def example_surah_def quiz_at_def)

text \<open>
  C2. In quiz mode, from a position of the data model, \<^verbatim>\<open>goPrev\<close> leaves the variables
  as follows: when the word index is above 0, only the word index changes, down by one;
  otherwise, when the ayah index is above 0, the ayah index goes down by one and the word
  index becomes the last of that ayah; otherwise nothing changes, and that last case is the
  position (0, 0).
\<close>

theorem goPrev_quiz:
  assumes "valid_state d s" and "isMcqMode s"
  shows "fst (goPrev d s) =
     (if currentWordIndex s > 0
      then s\<lparr>currentWordIndex := currentWordIndex s - 1\<rparr>
      else if currentAyahIndex s > 0
      then s\<lparr>currentAyahIndex := currentAyahIndex s - 1,
              currentWordIndex := totalWords d (currentAyahIndex s - 1) - 1\<rparr>
      else s) \<and>
     (\<not> currentWordIndex s > 0 \<and> \<not> currentAyahIndex s > 0 \<longleftrightarrow>
        currentAyahIndex s = 0 \<and> currentWordIndex s = 0)"
  using assms
  by (auto simp: goPrev_def valid_state_def valid_verse_def totalWords_def nth_js_valid Let_def)

theorem goPrev_quiz_witness:
  "valid_state example_surah (quiz_at 1 0) \<and> isMcqMode (quiz_at 1 0) \<and>
   fst (goPrev example_surah (quiz_at 1 0)) = quiz_at 0 1 \<and>
   fst (goPrev example_surah (quiz_at 0 1)) = quiz_at 0 0 \<and>
   fst (goPrev example_surah (quiz_at 0 0)) = quiz_at 0 0"
  using goPrev_quiz [of example_surah "quiz_at 1 0"]
        goPrev_quiz [of example_surah "quiz_at 0 1"]
        goPrev_quiz [of example_surah "quiz_at 0 0"]
  by (simp add: valid_state_def valid_verse_def totalWords_def example_surah_def quiz_at_def)

text \<open>
  C3. In quiz mode, from a position of the data model that is not the last word of the
  last ayah, \<^verbatim>\<open>goNext\<close> followed by \<^verbatim>\<open>goPrev\<close> gives back the very same variables, also
  when \<^verbatim>\<open>goNext\<close> has moved on to the next ayah.
\<close>

theorem goPrev_goNext_quiz:
  assumes "valid_state d s" and "isMcqMode s"
    and "\<not> (currentAyahIndex s = int (length (ayahs d)) - 1 \<and>
            currentWordIndex s = totalWords d (currentAyahIndex s) - 1)"
  shows "fst (goPrev d (fst (goNext d s))) = s"
proof -
  let ?i = "currentAyahIndex s" and ?w = "currentWordIndex s"
  from assms(1) have i: "0 \<le> ?i" "?i < int (length (ayahs d))"
    and w: "0 \<le> ?w" "?w < totalWords d ?i"
    by (simp_all add: valid_state_def valid_verse_def)
  from i have ayah: "nth_js (ayahs d) ?i = Some (ayahs d ! nat ?i)"
    by (rule nth_js_valid)
  show ?thesis
  proof (cases "?w < totalWords d ?i - 1")
    case True
    with assms(2) ayah w show ?thesis
      by (simp add: goNext_def goPrev_def totalWords_def Let_def)
  next
    case False
    with w have last: "?w = totalWords d ?i - 1" by simp
    with assms(3) i have more: "?i < int (length (ayahs d)) - 1" by simp
    from False more assms(2) ayah
    have "fst (goNext d s) = s\<lparr>currentAyahIndex := ?i + 1, currentWordIndex := 0\<rparr>"
      by (simp add: goNext_def totalWords_def Let_def)
    with assms(2) i ayah last show ?thesis
      by (simp add: goPrev_def totalWords_def Let_def)
  qed
qed

theorem goPrev_goNext_quiz_witness:
  "valid_state example_surah (quiz_at 0 1) \<and> isMcqMode (quiz_at 0 1) \<and>
   fst (goNext example_surah (quiz_at 0 1)) = quiz_at 1 0 \<and>
   fst (goPrev example_surah (fst (goNext example_surah (quiz_at 0 1)))) = quiz_at 0 1"
  using goPrev_goNext_quiz [of example_surah "quiz_at 0 1"]
  by (simp add: valid_state_def valid_verse_def totalWords_def example_surah_def quiz_at_def
      goNext_def nth_js_def Let_def)

text \<open>
  C4. In review mode, with the ayah index inside the corpus: \<^verbatim>\<open>goNext\<close> at the last ayah
  sets the ayah index to 0 and elsewhere adds one to it; \<^verbatim>\<open>goPrev\<close> at ayah 0 changes
  nothing and elsewhere takes one from it. Nothing else is assigned.
\<close>

theorem review_navigation:
  assumes "valid_verse d s" and "\<not> isMcqMode s"
  shows "fst (goNext d s) =
     (if currentAyahIndex s = int (length (ayahs d)) - 1
      then s\<lparr>currentAyahIndex := 0\<rparr>
      else s\<lparr>currentAyahIndex := currentAyahIndex s + 1\<rparr>) \<and>
     fst (goPrev d s) =
     (if currentAyahIndex s = 0 then s
      else s\<lparr>currentAyahIndex := currentAyahIndex s - 1\<rparr>)"
  using assms
  by (auto simp: goNext_def goPrev_def valid_verse_def Let_def)

theorem review_navigation_witness:
  "valid_verse example_surah (review_at 1 0) \<and> \<not> isMcqMode (review_at 1 0) \<and>
   fst (goNext example_surah (review_at 1 0)) = review_at 0 0 \<and>
   fst (goPrev example_surah (review_at 1 0)) = review_at 0 0 \<and>
   fst (goNext example_surah (review_at 0 0)) = review_at 1 0 \<and>
   fst (goPrev example_surah (review_at 0 0)) = review_at 0 0"
  using review_navigation [of example_surah "review_at 1 0"]
        review_navigation [of example_surah "review_at 0 0"]
  by (simp add: valid_verse_def example_surah_def review_at_def)

text \<open>
  C5. From any state, \<^verbatim>\<open>switchMode(true)\<close> (entering the quiz) leaves the mode set to
  quiz and the word index 0 and does not touch the ayah index; \<^verbatim>\<open>switchMode(false)\<close>
  (entering review) sets the mode to review and touches neither index.
\<close>

theorem switchMode_frame:
  "fst (switchMode True d s) = s\<lparr>isMcqMode := True, currentWordIndex := 0\<rparr> \<and>
   currentAyahIndex (fst (switchMode True d s)) = currentAyahIndex s \<and>
   fst (switchMode False d s) = s\<lparr>isMcqMode := False\<rparr> \<and>
   currentAyahIndex (fst (switchMode False d s)) = currentAyahIndex s"
  by (simp add: switchMode_def Let_def)

text \<open>
  C10. In review mode neither \<^verbatim>\<open>goNext\<close> nor \<^verbatim>\<open>goPrev\<close> assigns the word index, and in
  either mode neither of them assigns the mode.
\<close>

theorem navigation_frame:
  "(\<not> isMcqMode s \<longrightarrow>
      currentWordIndex (fst (goNext d s)) = currentWordIndex s \<and>
      currentWordIndex (fst (goPrev d s)) = currentWordIndex s) \<and>
   isMcqMode (fst (goNext d s)) = isMcqMode s \<and>
   isMcqMode (fst (goPrev d s)) = isMcqMode s"
  by (auto simp: goNext_def goPrev_def Let_def split: option.splits)

theorem navigation_frame_witness:
  "\<not> isMcqMode (review_at 0 1) \<and>
   currentWordIndex (fst (goNext example_surah (review_at 0 1))) = 1 \<and>
   currentWordIndex (fst (goPrev example_surah (review_at 0 1))) = 1 \<and>
   \<not> isMcqMode (fst (goNext example_surah (review_at 0 1))) \<and>
   \<not> isMcqMode (fst (goPrev example_surah (review_at 0 1)))"
  using navigation_frame [of "review_at 0 1" example_surah]
  by (simp add: review_at_def)

section \<open>Navigation: the invariant of a session\<close>

lemma well_formed_words:
  "well_formed d \<Longrightarrow> 0 \<le> i \<Longrightarrow> i < int (length (ayahs d)) \<Longrightarrow>
   words (ayahs d ! nat i) \<noteq> []"
  by (simp add: well_formed_def list_all_length)

lemma nav_inv_initial: "nav_inv d initial"
  by (cases "ayahs d") (simp_all add: nav_inv_def initial_def)

lemma nav_inv_goNext:
  assumes "well_formed d" and "nav_inv d s"
  shows "nav_inv d (fst (goNext d s))"
proof (cases "isMcqMode s")
  case False
  with assms(2) show ?thesis
    by (auto simp: nav_inv_def goNext_def Let_def)
next
  case True
  show ?thesis
  proof (cases "nth_js (ayahs d) (currentAyahIndex s)")
    case None
    with True assms(2) show ?thesis by (simp add: goNext_def)
  next
    case (Some a)
    then have i: "0 \<le> currentAyahIndex s" "currentAyahIndex s < int (length (ayahs d))"
      and a: "a = ayahs d ! nat (currentAyahIndex s)"
      by (auto simp: nth_js_def split: if_splits)
    from i have ne: "ayahs d \<noteq> []" by auto
    with True assms(2) Some have w: "0 \<le> currentWordIndex s"
      by (simp add: nav_inv_def word_index_valid_def)
    have nxt: "currentAyahIndex s < int (length (ayahs d)) - 1 \<Longrightarrow>
        words (ayahs d ! nat (currentAyahIndex s + 1)) \<noteq> []"
      using i by (intro well_formed_words [OF assms(1)]) simp_all
    from True Some i w assms(2) nxt show ?thesis
      by (auto simp: nav_inv_def goNext_def Let_def word_index_valid_def nth_js_def)
  qed
qed

lemma nav_inv_goPrev:
  assumes "well_formed d" and "nav_inv d s"
  shows "nav_inv d (fst (goPrev d s))"
proof (cases "isMcqMode s")
  case False
  with assms(2) show ?thesis
    by (auto simp: nav_inv_def goPrev_def Let_def)
next
  case True
  have prv: "0 < currentAyahIndex s \<Longrightarrow> currentAyahIndex s < int (length (ayahs d)) \<Longrightarrow>
        words (ayahs d ! nat (currentAyahIndex s - 1)) \<noteq> []"
    by (intro well_formed_words [OF assms(1)]) simp_all
  from True assms(2) prv show ?thesis
    by (auto simp: nav_inv_def goPrev_def Let_def word_index_valid_def nth_js_def
        split: if_splits)
qed

lemma nav_inv_switchMode:
  assumes "well_formed d" and "nav_inv d s"
  shows "nav_inv d (fst (switchMode m d s))"
proof -
  have cur: "0 \<le> currentAyahIndex s \<Longrightarrow> currentAyahIndex s < int (length (ayahs d)) \<Longrightarrow>
        words (ayahs d ! nat (currentAyahIndex s)) \<noteq> []"
    by (intro well_formed_words [OF assms(1)]) simp_all
  from assms(2) cur show ?thesis
    by (auto simp: nav_inv_def switchMode_def Let_def word_index_valid_def nth_js_def
        split: if_splits)
qed

lemma nav_inv_step: "well_formed d \<Longrightarrow> nav_inv d s \<Longrightarrow> nav_inv d (step d s a)"
  by (cases a) (simp_all add: step_def nav_inv_goNext nav_inv_goPrev nav_inv_switchMode)

lemma nav_inv_run: "well_formed d \<Longrightarrow> nav_inv d s \<Longrightarrow> nav_inv d (run d s acts)"
  unfolding run_def by (induction acts arbitrary: s) (simp_all add: nav_inv_step)

text \<open>
  The word index is not an index of the current ayah in every state of a session (C6 as
  it is stated). In review mode \<^verbatim>\<open>goNext\<close> moves to the next ayah and leaves the word
  index where the quiz left it: over the two-ayah corpus, entering the quiz, one step
  forward, back to review and one step forward ends at ayah 1, which has one word, with
  word index 1.
\<close>

theorem word_index_not_always_valid:
  "well_formed example_surah \<and>
   run example_surah initial [SwitchMode True, Next, SwitchMode False, Next] = review_at 1 1 \<and>
   \<not> word_index_valid example_surah
       (run example_surah initial [SwitchMode True, Next, SwitchMode False, Next])"
  by (simp add: well_formed_def example_surah_def run_def step_def initial_def review_at_def
      switchMode_def goNext_def nth_js_def Let_def word_index_valid_def example_word_def)

text \<open>
  C6, amended. Over a well-formed corpus that has an ayah, every state of a session that
  is in quiz mode has a word index that is an index of a word of the current ayah. (The
  word index is read in quiz mode only, and \<^verbatim>\<open>switchMode\<close> sets it to 0 on entering
  the quiz.)
\<close>

theorem quiz_word_index_valid:
  assumes "well_formed d" and "ayahs d \<noteq> []" and "isMcqMode (run d initial acts)"
  shows "word_index_valid d (run d initial acts)"
  using nav_inv_run [OF assms(1) nav_inv_initial, of acts] assms(2,3)
  by (simp add: nav_inv_def)

theorem quiz_word_index_valid_witness:
  "well_formed example_surah \<and> ayahs example_surah \<noteq> [] \<and>
   run example_surah initial [SwitchMode True, Next, SwitchMode False, Next, SwitchMode True]
     = quiz_at 1 0 \<and>
   word_index_valid example_surah
     (run example_surah initial [SwitchMode True, Next, SwitchMode False, Next, SwitchMode True])"
  using quiz_word_index_valid [of example_surah
      "[SwitchMode True, Next, SwitchMode False, Next, SwitchMode True]"]
  by (simp add: well_formed_def example_surah_def run_def step_def initial_def quiz_at_def
      switchMode_def goNext_def nth_js_def Let_def example_word_def)

section \<open>The shuffler: permutation and bijection\<close>

lemma length_swap [simp]: "length (swap i j a) = length a"
  by (simp add: swap_def)

lemma mset_swap_array: "i < length a \<Longrightarrow> j < length a \<Longrightarrow> mset (swap i j a) = mset a"
  unfolding swap_def by (rule mset_swap)

lemma swap_map: "i < length a \<Longrightarrow> j < length a \<Longrightarrow> swap i j (map f a) = map f (swap i j a)"
  by (simp add: swap_def map_update)

lemma swap_nth_other: "m \<noteq> i \<Longrightarrow> m \<noteq> j \<Longrightarrow> swap i j a ! m = a ! m"
  by (simp add: swap_def)

lemma swap_nth_fst: "i < length a \<Longrightarrow> j < length a \<Longrightarrow> swap i j a ! i = a ! j"
  by (cases "i = j") (simp_all add: swap_def)

lemma distinct_swap: "i < length a \<Longrightarrow> j < length a \<Longrightarrow> distinct (swap i j a) = distinct a"
  by (rule mset_eq_imp_distinct_iff) (rule mset_swap_array)

lemma length_shuffle_loop [simp]: "length (shuffle_loop rnd t i a) = length a"
  by (induction rnd t i a rule: shuffle_loop.induct) simp_all

lemma mset_shuffle_loop:
  "i < length a \<Longrightarrow> draws_ok rnd t i \<Longrightarrow> mset (shuffle_loop rnd t i a) = mset a"
  by (induction rnd t i a rule: shuffle_loop.induct) (simp_all add: mset_swap_array)

lemma shuffle_loop_map:
  "i < length a \<Longrightarrow> draws_ok rnd t i \<Longrightarrow>
   shuffle_loop rnd t i (map f a) = map f (shuffle_loop rnd t i a)"
  by (induction rnd t i a rule: shuffle_loop.induct) (simp_all add: swap_map)

lemma shuffle_loop_above:
  "i < m \<Longrightarrow> draws_ok rnd t i \<Longrightarrow> shuffle_loop rnd t i a ! m = a ! m"
  by (induction rnd t i a rule: shuffle_loop.induct) (simp_all add: swap_nth_other)

lemma shuffle_loop_cong:
  "(\<And>s. s < i \<Longrightarrow> p (t + s) = q (t + s)) \<Longrightarrow> shuffle_loop p t i a = shuffle_loop q t i a"
proof (induction i arbitrary: t a)
  case 0
  show ?case by simp
next
  case (Suc k)
  have "p t = q t" using Suc.prems [of 0] by simp
  moreover have "shuffle_loop p (Suc t) k (swap (Suc k) (p t) a) =
      shuffle_loop q (Suc t) k (swap (Suc k) (p t) a)"
  proof (rule Suc.IH)
    fix s assume "s < k"
    then show "p (Suc t + s) = q (Suc t + s)" using Suc.prems [of "Suc s"] by simp
  qed
  ultimately show ?case by simp
qed

lemma draws_ok_cong:
  "(\<And>s. s < i \<Longrightarrow> p (t + s) = q (t + s)) \<Longrightarrow> draws_ok p t i = draws_ok q t i"
proof (induction i arbitrary: t)
  case 0
  show ?case by simp
next
  case (Suc k)
  have "p t = q t" using Suc.prems [of 0] by simp
  moreover have "draws_ok p (Suc t) k = draws_ok q (Suc t) k"
  proof (rule Suc.IH)
    fix s assume "s < k"
    then show "p (Suc t + s) = q (Suc t + s)" using Suc.prems [of "Suc s"] by simp
  qed
  ultimately show ?case by simp
qed

lemma shuffle_loop_inj:
  "distinct a \<Longrightarrow> i < length a \<Longrightarrow> draws_ok p t i \<Longrightarrow> draws_ok q t i \<Longrightarrow>
   shuffle_loop p t i a = shuffle_loop q t i a \<Longrightarrow> s < i \<Longrightarrow> p (t + s) = q (t + s)"
proof (induction i arbitrary: t a s)
  case 0
  then show ?case by simp
next
  case (Suc k)
  let ?ap = "swap (Suc k) (p t) a" and ?aq = "swap (Suc k) (q t) a"
  from Suc.prems have pt: "p t \<le> Suc k" and qt: "q t \<le> Suc k"
    and dp: "draws_ok p (Suc t) k" and dq: "draws_ok q (Suc t) k" by simp_all
  from Suc.prems have eq: "shuffle_loop p (Suc t) k ?ap = shuffle_loop q (Suc t) k ?aq"
    by simp
  have "shuffle_loop p (Suc t) k ?ap ! Suc k = ?ap ! Suc k"
    using dp by (intro shuffle_loop_above) simp_all
  moreover have "shuffle_loop q (Suc t) k ?aq ! Suc k = ?aq ! Suc k"
    using dq by (intro shuffle_loop_above) simp_all
  ultimately have "?ap ! Suc k = ?aq ! Suc k" using eq by simp
  with Suc.prems(2) pt qt have "a ! p t = a ! q t"
    by (simp add: swap_nth_fst)
  with Suc.prems(1,2) pt qt have first: "p t = q t"
    by (simp add: nth_eq_iff_index_eq)
  show ?case
  proof (cases s)
    case 0
    with first show ?thesis by simp
  next
    case (Suc s')
    have "p (Suc t + s') = q (Suc t + s')"
    proof (rule Suc.IH [of ?ap])
      show "distinct ?ap" using Suc.prems(1,2) pt by (simp add: distinct_swap)
      show "k < length ?ap" using Suc.prems(2) by simp
      show "draws_ok p (Suc t) k" by (rule dp)
      show "draws_ok q (Suc t) k" by (rule dq)
      show "shuffle_loop p (Suc t) k ?ap = shuffle_loop q (Suc t) k ?ap"
        using eq first by simp
      show "s' < k" using Suc \<open>s < Suc k\<close> by simp
    qed
    with Suc show ?thesis by simp
  qed
qed

lemma shuffle_loop_surj:
  "distinct a \<Longrightarrow> i < length a \<Longrightarrow> mset b = mset a \<Longrightarrow>
   (\<And>m. i < m \<Longrightarrow> m < length a \<Longrightarrow> b ! m = a ! m) \<Longrightarrow>
   \<exists>rnd. draws_ok rnd t i \<and> shuffle_loop rnd t i a = b"
proof (induction i arbitrary: t a)
  case 0
  have len: "length b = length a" using "0.prems"(3) by (rule mset_eq_length)
  have tl_eq: "b ! m = a ! m" if "0 < m" "m < length a" for m
    using "0.prems"(4) that by simp
  obtain a0 as where a: "a = a0 # as" using "0.prems"(2) by (cases a) auto
  obtain b0 bs where b: "b = b0 # bs" using len a by (cases b) auto
  have "bs = as"
  proof (rule nth_equalityI)
    show "length bs = length as" using len a b by simp
    fix m assume "m < length bs"
    then show "bs ! m = as ! m" using tl_eq [of "Suc m"] a b len by simp
  qed
  with "0.prems"(3) a b have "b = a" by simp
  then show ?case by simp
next
  case (Suc k)
  have len: "length b = length a" using Suc.prems(3) by (rule mset_eq_length)
  have db: "distinct b" using Suc.prems(1) mset_eq_imp_distinct_iff [OF Suc.prems(3)] by simp
  have "b ! Suc k \<in> set a"
    using Suc.prems(2,3) len by (metis mset_eq_setD nth_mem)
  then obtain j where j: "j < length a" "a ! j = b ! Suc k"
    by (auto simp: in_set_conv_nth)
  have jk: "j \<le> Suc k"
  proof (rule ccontr)
    assume "\<not> j \<le> Suc k"
    then have "Suc k < j" by simp
    with Suc.prems(4) j have "b ! j = b ! Suc k" by simp
    with db j len Suc.prems(2) \<open>Suc k < j\<close> show False
      by (simp add: nth_eq_iff_index_eq)
  qed
  let ?a' = "swap (Suc k) j a"
  have "\<exists>rnd. draws_ok rnd (Suc t) k \<and> shuffle_loop rnd (Suc t) k ?a' = b"
  proof (rule Suc.IH)
    show "distinct ?a'" using Suc.prems(1,2) j by (simp add: distinct_swap)
    show "k < length ?a'" using Suc.prems(2) by simp
    show "mset b = mset ?a'" using Suc.prems(2,3) j by (simp add: mset_swap_array)
    fix m assume m: "k < m" "m < length ?a'"
    show "b ! m = ?a' ! m"
    proof (cases "m = Suc k")
      case True
      with Suc.prems(2) j show ?thesis by (simp add: swap_nth_fst)
    next
      case False
      with m jk have "m \<noteq> j" "Suc k < m" by simp_all
      with False m Suc.prems(4) show ?thesis by (simp add: swap_nth_other)
    qed
  qed
  then obtain r where r: "draws_ok r (Suc t) k" "shuffle_loop r (Suc t) k ?a' = b"
    by blast
  let ?rnd = "r(t := j)"
  have same: "?rnd (Suc t + s) = r (Suc t + s)" for s by simp
  have "draws_ok ?rnd (Suc t) k = draws_ok r (Suc t) k"
    by (rule draws_ok_cong) (rule same)
  moreover have "shuffle_loop ?rnd (Suc t) k ?a' = shuffle_loop r (Suc t) k ?a'"
    by (rule shuffle_loop_cong) (rule same)
  ultimately have "draws_ok ?rnd t (Suc k) \<and> shuffle_loop ?rnd t (Suc k) a = b"
    using r jk by simp
  then show ?case by blast
qed


lemma shuffled_Nil [simp]: "shuffled rnd [] = []"
  by (simp add: shuffled_def)

lemma length_shuffled [simp]: "length (shuffled rnd a) = length a"
  by (simp add: shuffled_def)

lemma mset_shuffled:
  "draws_ok rnd 0 (length a - 1) \<Longrightarrow> mset (shuffled rnd a) = mset a"
  by (cases "a = []") (simp_all add: shuffled_def mset_shuffle_loop)

lemma shuffled_positions:
  assumes "draws_ok rnd 0 (length a - 1)"
  shows "shuffled rnd a = map (\<lambda>k. a ! k) (shuffled rnd [0..<length a])"
proof (cases "a = []")
  case True
  then show ?thesis by simp
next
  case False
  have "shuffled rnd (map (\<lambda>k. a ! k) [0..<length a]) =
      map (\<lambda>k. a ! k) (shuffled rnd [0..<length a])"
    unfolding shuffled_def using False assms by (simp add: shuffle_loop_map)
  then show ?thesis by (simp add: map_nth)
qed

lemma choices_exist:
  assumes "mset ys = mset [0..<n]"
  shows "\<exists>js. choices n js \<and> shuffled (\<lambda>t. js ! t) [0..<n] = ys"
proof (cases n)
  case 0
  with assms show ?thesis by (simp add: choices_def)
next
  case (Suc k)
  have "\<exists>rnd. draws_ok rnd 0 k \<and> shuffle_loop rnd 0 k [0..<n] = ys"
    using assms Suc by (intro shuffle_loop_surj) simp_all
  then obtain rnd where rnd: "draws_ok rnd 0 k" "shuffle_loop rnd 0 k [0..<n] = ys"
    by blast
  let ?js = "map rnd [0..<k]"
  have same: "?js ! (0 + s) = rnd (0 + s)" if "s < k" for s
    using that by simp
  have "draws_ok (\<lambda>t. ?js ! t) 0 k = draws_ok rnd 0 k"
    by (rule draws_ok_cong) (rule same)
  moreover have "shuffle_loop (\<lambda>t. ?js ! t) 0 k [0..<n] = shuffle_loop rnd 0 k [0..<n]"
    by (rule shuffle_loop_cong) (rule same)
  ultimately have "choices n ?js \<and> shuffled (\<lambda>t. ?js ! t) [0..<n] = ys"
    using rnd Suc by (simp add: choices_def shuffled_def)
  then show ?thesis by blast
qed

lemma choices_unique:
  assumes "choices n js" and "choices n js'"
    and "shuffled (\<lambda>t. js ! t) [0..<n] = shuffled (\<lambda>t. js' ! t) [0..<n]"
  shows "js = js'"
proof (cases n)
  case 0
  with assms(1,2) show ?thesis by (simp add: choices_def)
next
  case (Suc k)
  show ?thesis
  proof (rule nth_equalityI)
    show "length js = length js'" using assms(1,2) by (simp add: choices_def)
    fix s assume "s < length js"
    with assms(1) Suc have s: "s < k" by (simp add: choices_def)
    have "(\<lambda>t. js ! t) (0 + s) = (\<lambda>t. js' ! t) (0 + s)"
    proof (rule shuffle_loop_inj [where a = "[0..<n]" and i = k])
      show "distinct [0..<n]" by simp
      show "k < length [0..<n]" using Suc by simp
      show "draws_ok (\<lambda>t. js ! t) 0 k" using assms(1) Suc by (simp add: choices_def)
      show "draws_ok (\<lambda>t. js' ! t) 0 k" using assms(2) Suc by (simp add: choices_def)
      show "shuffle_loop (\<lambda>t. js ! t) 0 k [0..<n] = shuffle_loop (\<lambda>t. js' ! t) 0 k [0..<n]"
        using assms(3) Suc by (simp add: shuffled_def)
      show "s < k" by (rule s)
    qed
    then show "js ! s = js' ! s" by simp
  qed
qed

lemma choices_permute:
  "choices n js \<Longrightarrow> mset (shuffled (\<lambda>t. js ! t) [0..<n]) = mset [0..<n]"
  by (rule mset_shuffled) (simp add: choices_def)

lemma arrangements_eq:
  "{ys. mset ys = mset [0..<n]} = {ys. length ys = n \<and> distinct ys \<and> set ys \<subseteq> {0..<n}}"
proof (intro set_eqI iffI; clarify)
  fix ys :: "nat list"
  assume eq: "mset ys = mset [0..<n]"
  from mset_eq_length [OF eq] mset_eq_imp_distinct_iff [OF eq] mset_eq_setD [OF eq]
  show "length ys = n \<and> distinct ys \<and> set ys \<subseteq> {0..<n}" by simp
next
  fix ys :: "nat list"
  assume d: "distinct ys" and s: "set ys \<subseteq> {0..<length ys}"
  from d have "card (set ys) = length ys" by (rule distinct_card)
  with s have "set ys = {0..<length ys}" by (intro card_subset_eq) simp_all
  moreover from d have "mset_set (set ys) = mset ys" by (rule mset_set_set)
  ultimately show "mset ys = mset [0..<length ys]" by simp
qed

lemma card_arrangements: "card {ys. mset ys = mset [0..<n]} = fact n"
proof -
  have "card {ys. length ys = n \<and> distinct ys \<and> set ys \<subseteq> {0..<n}} = \<Prod>{card {0..<n} - n + 1..card {0..<n}}"
    by (rule card_lists_distinct_length_eq) simp_all
  then show ?thesis unfolding arrangements_eq by (simp add: fact_prod)
qed

lemma card_choices: "card {js. choices n js} = fact n"
proof -
  let ?f = "\<lambda>js. shuffled (\<lambda>t. js ! t) [0..<n]"
  have "bij_betw ?f {js. choices n js} {ys. mset ys = mset [0..<n]}"
    unfolding bij_betw_def
  proof
    show "inj_on ?f {js. choices n js}"
      by (rule inj_onI) (simp add: choices_unique)
    show "?f ` {js. choices n js} = {ys. mset ys = mset [0..<n]}"
    proof (intro set_eqI iffI)
      fix ys assume "ys \<in> ?f ` {js. choices n js}"
      then obtain js where "choices n js" "ys = ?f js" by blast
      then show "ys \<in> {ys. mset ys = mset [0..<n]}"
        by (simp only: mem_Collect_eq choices_permute)
    next
      fix ys assume "ys \<in> {ys. mset ys = mset [0..<n]}"
      then have "mset ys = mset [0..<n]" by (simp only: mem_Collect_eq)
      from choices_exist [OF this] obtain js where "choices n js" "?f js = ys" by blast
      then show "ys \<in> ?f ` {js. choices n js}" by blast
    qed
  qed
  then have "card {js. choices n js} = card {ys. mset ys = mset [0..<n]}"
    by (rule bij_betw_same_card)
  then show ?thesis by (simp only: card_arrangements)
qed

lemma shuffleArray_in_place:
  "fst (shuffleArray rnd array h) = array \<and>
   length (snd (shuffleArray rnd array h)) = length h \<and>
   (array < length h \<longrightarrow> snd (shuffleArray rnd array h) ! array = shuffled rnd (h ! array))"
  by (simp add: shuffleArray_def)

text \<open>
  C7. \<^verbatim>\<open>shuffleArray([...word.options])\<close>, for any options array of the store and any
  draws within their ranges: the array returned is a new one (its address is not one of
  the store before the call, so it is not the options array), it holds the same elements
  with the same multiplicities as the options array, and the options array and every other
  array of the store is as it was.
\<close>

theorem shuffledOptions_permutes_copy:
  assumes "options word < length h"
    and "draws_ok rnd 0 (length (h ! options word) - 1)"
  shows "case shuffledOptions rnd word h of
           (copy, h') \<Rightarrow>
             copy = length h \<and> length h' = Suc (length h) \<and>
             copy \<noteq> options word \<and>
             mset (h' ! copy) = mset (h ! options word) \<and>
             h' ! options word = h ! options word \<and>
             take (length h) h' = h"
  using assms
  by (simp add: shuffledOptions_def spread_def shuffleArray_def mset_shuffled nth_append)

theorem shuffledOptions_permutes_copy_witness:
  "options (example_word ''b'' 0) < length [[''a'', ''b'', ''c'', ''d'']] \<and>
   draws_ok (\<lambda>t. [1, 0, 0] ! t) 0 3 \<and>
   shuffledOptions (\<lambda>t. [1, 0, 0] ! t) (example_word ''b'' 0) [[''a'', ''b'', ''c'', ''d'']] =
     (1, [[''a'', ''b'', ''c'', ''d''], [''d'', ''c'', ''a'', ''b'']])"
proof -
  have d: "draws_ok (\<lambda>t. [1, 0, 0] ! t) 0 3"
    by (simp add: numeral_3_eq_3)
  have o: "options (example_word ''b'' 0) < length [[''a'', ''b'', ''c'', ''d'']]"
    by (simp add: example_word_def)
  have r: "shuffledOptions (\<lambda>t. [1, 0, 0] ! t) (example_word ''b'' 0)
      [[''a'', ''b'', ''c'', ''d'']] =
     (1, [[''a'', ''b'', ''c'', ''d''], [''d'', ''c'', ''a'', ''b'']])"
    by (simp add: shuffledOptions_def spread_def shuffleArray_def shuffled_def swap_def
        example_word_def numeral_3_eq_3)
  from shuffledOptions_permutes_copy [OF o, of "\<lambda>t. [1, 0, 0] ! t"] d r o
  show ?thesis by simp
qed

text \<open>
  C8. For an array of \<open>n\<close> elements, a sequence of choices is the \<open>n - 1\<close> indices drawn,
  the one at loop index \<open>i\<close> in \<open>[0, i]\<close>. Every sequence of choices arranges the positions
  \<open>0, \<dots>, n - 1\<close> in some order; every arrangement of the positions comes from exactly
  one sequence of choices; the array returned for any input is the input read in that
  order; and there are \<open>n!\<close> sequences of choices. With each index drawn uniformly and
  independently, every sequence of choices, hence every arrangement, has probability
  \<open>1 / n!\<close>.
\<close>

theorem shuffle_choices_bijection:
  "(\<forall>js. choices n js \<longrightarrow> mset (shuffled (\<lambda>t. js ! t) [0..<n]) = mset [0..<n]) \<and>
   (\<forall>ys. mset ys = mset [0..<n] \<longrightarrow>
      (\<exists>!js. choices n js \<and> shuffled (\<lambda>t. js ! t) [0..<n] = ys)) \<and>
   (\<forall>js array. choices n js \<and> length array = n \<longrightarrow>
      shuffled (\<lambda>t. js ! t) array =
        map (\<lambda>k. array ! k) (shuffled (\<lambda>t. js ! t) [0..<n])) \<and>
   card {js. choices n js} = fact n"
proof (intro conjI allI impI)
  fix js assume "choices n js"
  then show "mset (shuffled (\<lambda>t. js ! t) [0..<n]) = mset [0..<n]"
    by (rule choices_permute)
next
  fix ys :: "nat list" assume "mset ys = mset [0..<n]"
  then obtain js where js: "choices n js" "shuffled (\<lambda>t. js ! t) [0..<n] = ys"
    using choices_exist by blast
  show "\<exists>!js. choices n js \<and> shuffled (\<lambda>t. js ! t) [0..<n] = ys"
  proof (rule ex1I)
    show "choices n js \<and> shuffled (\<lambda>t. js ! t) [0..<n] = ys"
      using js by (intro conjI)
    fix js' assume other: "choices n js' \<and> shuffled (\<lambda>t. js' ! t) [0..<n] = ys"
    show "js' = js"
    proof (rule choices_unique)
      show "choices n js'" using other by (rule conjunct1)
      show "choices n js" by (rule js(1))
      show "shuffled (\<lambda>t. js' ! t) [0..<n] = shuffled (\<lambda>t. js ! t) [0..<n]"
        using other js(2) by (simp only:)
    qed
  qed
next
  fix js and array :: "'a list"
  assume h: "choices n js \<and> length array = n"
  then have l: "length array = n" by (rule conjunct2)
  from h have "draws_ok (\<lambda>t. js ! t) 0 (n - 1)" by (simp only: choices_def)
  then have "draws_ok (\<lambda>t. js ! t) 0 (length array - 1)" by (simp only: l)
  then have "shuffled (\<lambda>t. js ! t) array =
      map (\<lambda>k. array ! k) (shuffled (\<lambda>t. js ! t) [0..<length array])"
    by (rule shuffled_positions)
  then show "shuffled (\<lambda>t. js ! t) array =
      map (\<lambda>k. array ! k) (shuffled (\<lambda>t. js ! t) [0..<n])"
    by (simp only: l)
next
  show "card {js. choices n js} = fact n" by (rule card_choices)
qed

theorem shuffle_choices_bijection_witness:
  "choices 3 [1, 0] \<and> mset [2, 0, 1] = mset [0..<3] \<and>
   shuffled (\<lambda>t. [1, 0] ! t) [0..<3] = [2, 0, 1] \<and>
   (\<exists>!js. choices 3 js \<and> shuffled (\<lambda>t. js ! t) [0..<3] = [2, 0, 1]) \<and>
   shuffled (\<lambda>t. [1, 0] ! t) [''a'', ''b'', ''c''] = [''c'', ''a'', ''b''] \<and>
   card {js. choices 3 js} = 6"
proof -
  have c: "choices 3 [1, 0]"
    by (simp add: choices_def numeral_3_eq_3)
  have u: "[0..<3] = [0, 1, 2]"
    by (simp add: numeral_3_eq_3 upt_rec)
  have s: "shuffled (\<lambda>t. [1, 0] ! t) [0..<3] = [2, 0, 1]"
    by (simp add: u shuffled_def numeral_2_eq_2 swap_def)
  have m: "mset [2, 0, 1] = mset [0..<3]"
    by (simp add: u)
  have l: "length [''a'', ''b'', ''c''] = 3" by simp
  have a: "shuffled (\<lambda>t. [1, 0] ! t) [''a'', ''b'', ''c''] = [''c'', ''a'', ''b'']"
    by (simp add: shuffled_def numeral_2_eq_2 swap_def)
  have f: "fact 3 = (6::nat)"
    by (simp add: fact_numeral)
  from shuffle_choices_bijection [of 3]
  have e: "\<exists>!js. choices 3 js \<and> shuffled (\<lambda>t. js ! t) [0..<3] = [2, 0, 1]"
    and k: "card {js. choices 3 js} = fact 3"
    using m by blast+
  from c m s e a k f show ?thesis by (simp only: simp_thms)
qed

section \<open>Answer evaluation: what \<^verbatim>\<open>checkAnswer\<close> does\<close>







end
